theory Spec2Isabelle
  imports Main "HOL-Library.Sublist"
begin

section \<open>Python values used by the sorter\<close>

text \<open>
  Exceptions are values. Only the kind of exception is kept; the text that Python would
  print for it is not modelled.
\<close>

datatype exc = KeyError | AttributeError | ValueError | ComError

text \<open>
  Strings are lists of characters. \<open>str.lower()\<close> is modelled on the ASCII letters; other
  characters are left as they are.
\<close>

definition lower_char :: "char \<Rightarrow> char" where
  "lower_char c =
     (let n = (of_char c :: nat) in if 65 \<le> n \<and> n \<le> 90 then char_of (n + 32) else c)"

definition lower :: "string \<Rightarrow> string" where
  "lower s = map lower_char s"

text \<open>Python's \<open>kw in text\<close> on strings: \<open>kw\<close> starts at some position of \<open>text\<close>.\<close>

fun py_in :: "string \<Rightarrow> string \<Rightarrow> bool" where
  "py_in kw [] = (kw = [])"
| "py_in kw (c # t) = (prefix kw (c # t) \<or> py_in kw t)"

text \<open>
  A Python \<open>dict\<close> keeps insertion order: assigning to a key that is present replaces the
  value where the key stands, assigning to a new key appends it.
\<close>

fun dict_set :: "'k \<Rightarrow> 'v \<Rightarrow> ('k \<times> 'v) list \<Rightarrow> ('k \<times> 'v) list" where
  "dict_set k v [] = [(k, v)]"
| "dict_set k v ((k', v') # d) =
     (if k' = k then (k, v) # d else (k', v') # dict_set k v d)"

definition dict_get :: "('k \<times> 'v) list \<Rightarrow> 'k \<Rightarrow> 'v option" where
  "dict_get d k = map_of d k"

text \<open>\<open>str(n)\<close> of a Python integer.\<close>

definition digit_char :: "nat \<Rightarrow> char" where
  "digit_char d = char_of (48 + d)"

function str_nat :: "nat \<Rightarrow> string" where
  "str_nat n = (if n < 10 then [digit_char n] else str_nat (n div 10) @ [digit_char (n mod 10)])"
  by pat_completeness auto
termination
  by (relation "measure id") auto

declare str_nat.simps [simp del]

definition str_int :: "int \<Rightarrow> string" where
  "str_int i = (if i < 0 then CHR ''-'' # str_nat (nat (- i)) else str_nat (nat i))"

section \<open>The rule tables\<close>

text \<open>
  A cell of a data frame as \<open>pandas.read_excel\<close> returns it: a blank cell is \<open>NaN\<close>, a
  text cell is \<open>Str\<close>, an integer cell is \<open>Num\<close>. Floating-point cells are not modelled.
\<close>

datatype cell = NaN | Str string | Num int

fun py_str :: "cell \<Rightarrow> string" where
  "py_str NaN = ''nan''"
| "py_str (Str s) = s"
| "py_str (Num n) = str_int n"

type_synonym dataframe = "(string \<times> cell list) list"
type_synonym workbook = "(string \<times> dataframe) list"

text \<open>\<open>Series.dropna()\<close> and \<open>Series.unique()\<close> (first occurrences, in order).\<close>

definition dropna :: "cell list \<Rightarrow> cell list" where
  "dropna cs = filter (\<lambda>c. c \<noteq> NaN) cs"

fun unique_from :: "'a list \<Rightarrow> 'a list \<Rightarrow> 'a list" where
  "unique_from seen [] = []"
| "unique_from seen (x # xs) =
     (if x \<in> set seen then unique_from seen xs else x # unique_from (x # seen) xs)"

definition unique :: "'a list \<Rightarrow> 'a list" where
  "unique xs = unique_from [] xs"

text \<open>One entry of the configuration's \<open>sheet_map\<close>; the optional keys are those the code
  reads with \<open>get\<close> or may find missing.\<close>

record sheet_info =
  sheet :: string
  destination_name :: string
  column :: "string option"
  columns :: "string list option"
  match_field :: "string option"

record email_rule =
  e_dest :: string
  sender_only :: bool

record keyword_rule =
  k_dest :: string
  field :: string

section \<open>Mail items and the sorter's state\<close>

record exchange_user =
  PrimarySmtpAddress :: "exc + string"

record address_entry =
  AddressEntryUserType :: "exc + int"
  Address :: "exc + string"
  GetExchangeUser :: "exc + exchange_user option"

text \<open>
  A mail-store item. Every property read and every method call of the provider may raise.
  \<open>Subject\<close> and \<open>Body\<close> are the strings the provider returns, on which \<open>str()\<close> changes
  nothing.
  \<open>Delete\<close> and \<open>Move\<close> hold the outcome of the call (\<open>None\<close>: it succeeds); \<open>Move\<close> stands for
  finding or creating the destination folder and moving the item there.
  \<open>SubjectAfterAction\<close> is what reading \<open>Subject\<close> gives once the item has been deleted or moved
  (the log line is formatted after the action).
\<close>

record item =
  EntryID :: nat
  Class :: "exc + int"
  Subject :: "exc + string"
  Body :: "exc + string"
  Sender :: "exc + address_entry option"
  SenderEmailAddress :: "exc + string option"
  Delete :: "exc option"
  Move :: "exc option"
  SubjectAfterAction :: "exc + string"

datatype log_record =
    DELETED string string string
  | MOVED string string string string
  | ActionError string exc
  | ItemProcessError exc
  | DataLoaderError exc
  | CacheSaveError exc
  | FolderProcessingError exc

text \<open>
  The fields of \<open>OnlineArchiveSorter\<close>, the live content of the folder being processed
  (\<open>folder_items\<close>, position 1 first), the two log sinks, and history fields that record what
  happened: each assignment to a rule map, each position passed to \<open>Items.Item\<close>, each item
  it returned, each handle sent to \<open>GetExchangeUser\<close>, and the value of \<open>processed_count\<close>
  at each call of \<open>save_smtp_cache\<close>.
\<close>

record sorter =
  cache_save_interval :: int
  email_rules :: "(string \<times> email_rule) list"
  keyword_rules :: "(string \<times> keyword_rule) list"
  smtp_cache :: "(string \<times> string) list"
  processed_count :: int
  items_since_last_save :: int
  bulk_log :: "log_record list"
  invalid_log :: "log_record list"
  folder_items :: "item list"
  email_writes :: "(string \<times> email_rule) list"
  keyword_writes :: "(string \<times> keyword_rule) list"
  item_reads :: "int list"
  items_seen :: "item list"
  directory_calls :: "string list"
  cache_saves :: "int list"

text \<open>\<open>__init__\<close> before \<open>load_data\<close>: the interval from the configuration, everything else empty.\<close>

definition init :: "int \<Rightarrow> item list \<Rightarrow> sorter" where
  "init interval folder =
     \<lparr> cache_save_interval = interval, email_rules = [], keyword_rules = [], smtp_cache = [],
       processed_count = 0, items_since_last_save = 0, bulk_log = [], invalid_log = [],
       folder_items = folder, email_writes = [], keyword_writes = [], item_reads = [],
       items_seen = [], directory_calls = [], cache_saves = [] \<rparr>"

section \<open>load_data\<close>

text \<open>The inner loop over addresses: \<open>addr.lower()\<close> raises on a value that is not a string.
  A raise leaves the assignments made so far in place.\<close>

fun add_addresses :: "string \<Rightarrow> bool \<Rightarrow> cell list \<Rightarrow> sorter \<Rightarrow> exc option \<times> sorter" where
  "add_addresses d so [] s = (None, s)"
| "add_addresses d so (a # as) s =
     (case a of
        Str t \<Rightarrow>
          add_addresses d so as
            (s\<lparr> email_rules := dict_set (lower t) \<lparr>e_dest = d, sender_only = so\<rparr> (email_rules s),
                email_writes := email_writes s @ [(lower t, \<lparr>e_dest = d, sender_only = so\<rparr>)] \<rparr>)
      | _ \<Rightarrow> (Some AttributeError, s))"

fun add_keywords :: "string \<Rightarrow> string \<Rightarrow> cell list \<Rightarrow> sorter \<Rightarrow> sorter" where
  "add_keywords d mf [] s = s"
| "add_keywords d mf (kw # kws) s =
     add_keywords d mf kws
       (s\<lparr> keyword_rules := dict_set (lower (py_str kw)) \<lparr>k_dest = d, field = mf\<rparr> (keyword_rules s),
           keyword_writes := keyword_writes s @ [(lower (py_str kw), \<lparr>k_dest = d, field = mf\<rparr>)] \<rparr>)"

text \<open>The loop over the configured columns of a keyword rule; \<open>df[col]\<close> raises \<open>KeyError\<close>
  on a column the frame does not have (and on \<open>None\<close>).\<close>

fun add_columns :: "string \<Rightarrow> string \<Rightarrow> dataframe \<Rightarrow> string option list \<Rightarrow> sorter \<Rightarrow> exc option \<times> sorter" where
  "add_columns d mf df [] s = (None, s)"
| "add_columns d mf df (c # cs) s =
     (case c of
        None \<Rightarrow> (Some KeyError, s)
      | Some col \<Rightarrow>
          (case map_of df col of
             None \<Rightarrow> (Some KeyError, s)
           | Some cells \<Rightarrow> add_columns d mf df cs (add_keywords d mf (unique (dropna cells)) s)))"

definition is_email_rule :: "string \<Rightarrow> bool" where
  "is_email_rule rule_name = (py_in ''Email'' rule_name \<and> \<not> py_in ''Keyword'' rule_name)"

text \<open>The body of the loop over \<open>sheet_map\<close> (one rule row).\<close>

definition load_rule :: "workbook \<Rightarrow> string \<times> sheet_info \<Rightarrow> sorter \<Rightarrow> exc option \<times> sorter" where
  "load_rule xls row s =
     (let rule_name = fst row; info = snd row in
      case map_of xls (sheet info) of
        None \<Rightarrow> (Some ValueError, s)
      | Some df \<Rightarrow>
          let d = destination_name info in
          if is_email_rule rule_name then
            (case column info of
               None \<Rightarrow> (Some KeyError, s)
             | Some col \<Rightarrow>
                 (case map_of df col of
                    None \<Rightarrow> (Some KeyError, s)
                  | Some cells \<Rightarrow>
                      add_addresses d (rule_name = ''ResearchEmail'') (unique (dropna cells)) s))
          else
            (let cols = (case columns info of Some cs \<Rightarrow> map Some cs | None \<Rightarrow> [column info]);
                 mf = (case match_field info of Some m \<Rightarrow> m | None \<Rightarrow> ''subject_only'')
             in add_columns d mf df cols s))"

fun load_rules :: "workbook \<Rightarrow> (string \<times> sheet_info) list \<Rightarrow> sorter \<Rightarrow> exc option \<times> sorter" where
  "load_rules xls [] s = (None, s)"
| "load_rules xls (row # rows) s =
     (case load_rule xls row s of
        (Some e, s') \<Rightarrow> (Some e, s')
      | (None, s') \<Rightarrow> load_rules xls rows s')"

text \<open>
  \<open>load_data\<close>: the rule loop, then the cache sheet. \<open>cache_sheet\<close> is the dictionary the
  \<open>SMTP_Cache\<close> sheet yields, \<open>None\<close> when reading it raises. An exception of the rule loop
  skips the cache sheet and is logged.
\<close>

definition load_data :: "workbook \<Rightarrow> (string \<times> sheet_info) list \<Rightarrow> (string \<times> string) list option \<Rightarrow> sorter \<Rightarrow> sorter" where
  "load_data xls sheet_map cache_sheet s =
     (case load_rules xls sheet_map s of
        (Some e, s') \<Rightarrow> s'\<lparr> invalid_log := invalid_log s' @ [DataLoaderError e] \<rparr>
      | (None, s') \<Rightarrow> s'\<lparr> smtp_cache := (case cache_sheet of Some c \<Rightarrow> c | None \<Rightarrow> []) \<rparr>)"


section \<open>get_smtp_address\<close>

text \<open>Line 131, under the handler of line 132: the plain sender-address field, \<open>None\<close> when
  reading it raises.\<close>

definition plain_sender :: "item \<Rightarrow> string option" where
  "plain_sender it = (case SenderEmailAddress it of Inl e \<Rightarrow> None | Inr v \<Rightarrow> v)"

text \<open>
  The result is Python's return value (\<open>None\<close> for \<open>None\<close>). Any exception inside the \<open>try\<close>
  gives \<open>None\<close>; \<open>item.Sender\<close> being \<open>None\<close> raises at the next attribute read.
\<close>

definition get_smtp_address :: "item \<Rightarrow> sorter \<Rightarrow> string option \<times> sorter" where
  "get_smtp_address it s =
     (case Sender it of
        Inl e \<Rightarrow> (None, s)
      | Inr None \<Rightarrow> (None, s)
      | Inr (Some sender_obj) \<Rightarrow>
          (case AddressEntryUserType sender_obj of
             Inl e \<Rightarrow> (None, s)
           | Inr t \<Rightarrow>
               if t = 0 then
                 (case Address sender_obj of
                    Inl e \<Rightarrow> (None, s)
                  | Inr a \<Rightarrow>
                      let ex_addr = lower a in
                      (case dict_get (smtp_cache s) ex_addr of
                         Some v \<Rightarrow> (Some v, s)
                       | None \<Rightarrow>
                           let s1 = s\<lparr> directory_calls := directory_calls s @ [ex_addr] \<rparr> in
                           (case GetExchangeUser sender_obj of
                              Inl e \<Rightarrow> (None, s1)
                            | Inr None \<Rightarrow> (plain_sender it, s1)
                            | Inr (Some eu) \<Rightarrow>
                                (case PrimarySmtpAddress eu of
                                   Inl e \<Rightarrow> (None, s1)
                                 | Inr smtp \<Rightarrow>
                                     (Some smtp,
                                      s1\<lparr> smtp_cache := dict_set ex_addr smtp (smtp_cache s1) \<rparr>)))))
               else (plain_sender it, s)))"

section \<open>execute_action and process_email\<close>

text \<open>Removing the item at position \<open>i\<close> (1-based) from the live folder.\<close>

definition remove_at :: "int \<Rightarrow> 'a list \<Rightarrow> 'a list" where
  "remove_at i xs = take (nat (i - 1)) xs @ drop (nat i) xs"

definition execute_action :: "int \<Rightarrow> item \<Rightarrow> string \<Rightarrow> string \<Rightarrow> string \<Rightarrow> sorter \<Rightarrow> bool \<times> sorter" where
  "execute_action i it dest_name trigger match_type s =
     (if dest_name = ''ToDelete'' then
        (case Delete it of
           Some e \<Rightarrow> (False, s\<lparr> invalid_log := invalid_log s @ [ActionError dest_name e] \<rparr>)
         | None \<Rightarrow>
             let s1 = s\<lparr> folder_items := remove_at i (folder_items s) \<rparr> in
             (case SubjectAfterAction it of
                Inl e \<Rightarrow> (False, s1\<lparr> invalid_log := invalid_log s1 @ [ActionError dest_name e] \<rparr>)
              | Inr subj \<Rightarrow>
                  (True, s1\<lparr> bulk_log := bulk_log s1 @ [DELETED trigger match_type subj] \<rparr>)))
      else
        (case Move it of
           Some e \<Rightarrow> (False, s\<lparr> invalid_log := invalid_log s @ [ActionError dest_name e] \<rparr>)
         | None \<Rightarrow>
             let s1 = s\<lparr> folder_items := remove_at i (folder_items s) \<rparr> in
             (case SubjectAfterAction it of
                Inl e \<Rightarrow> (False, s1\<lparr> invalid_log := invalid_log s1 @ [ActionError dest_name e] \<rparr>)
              | Inr subj \<Rightarrow>
                  (True, s1\<lparr> bulk_log := bulk_log s1 @ [MOVED dest_name trigger match_type subj] \<rparr>))))"

text \<open>Lines 162 to 166: the test made for one keyword rule.\<close>

definition keyword_matches :: "keyword_rule \<Rightarrow> string \<Rightarrow> string \<Rightarrow> string \<Rightarrow> bool" where
  "keyword_matches info kw subject body =
     (if field info = ''subject_only'' \<and> py_in kw subject then True
      else if field info = ''subject_and_body'' \<and> (py_in kw subject \<or> py_in kw body) then True
      else False)"

text \<open>Lines 160 to 171: the keyword rules in dictionary order, the first match acts.\<close>

fun check_keyword_rules :: "int \<Rightarrow> item \<Rightarrow> (string \<times> keyword_rule) list \<Rightarrow> string \<Rightarrow> string \<Rightarrow> sorter \<Rightarrow> bool \<times> sorter" where
  "check_keyword_rules i it [] subject body s = (False, s)"
| "check_keyword_rules i it ((kw, info) # rest) subject body s =
     (if keyword_matches info kw subject body
      then execute_action i it (k_dest info) kw ''KeywordMatch'' s
      else check_keyword_rules i it rest subject body s)"

text \<open>\<open>process_email\<close> for the item read at position \<open>i\<close>.\<close>

definition process_email :: "int \<Rightarrow> item \<Rightarrow> sorter \<Rightarrow> bool \<times> sorter" where
  "process_email i it s =
     (case Subject it of
        Inl e \<Rightarrow> (False, s\<lparr> invalid_log := invalid_log s @ [ItemProcessError e] \<rparr>)
      | Inr subj \<Rightarrow>
          (case Body it of
             Inl e \<Rightarrow> (False, s\<lparr> invalid_log := invalid_log s @ [ItemProcessError e] \<rparr>)
           | Inr bod \<Rightarrow>
               let subject = lower subj;
                   body = lower bod;
                   r = get_smtp_address it s;
                   s1 = snd r;
                   sender_email = lower (case fst r of None \<Rightarrow> [] | Some a \<Rightarrow> a)
               in
               (case dict_get (email_rules s1) sender_email of
                  Some rule_info \<Rightarrow>
                    if \<not> sender_only rule_info \<or> sender_email \<noteq> []
                    then execute_action i it (e_dest rule_info) sender_email ''EmailMatch'' s1
                    else check_keyword_rules i it (keyword_rules s1) subject body s1
                | None \<Rightarrow> check_keyword_rules i it (keyword_rules s1) subject body s1)))"

section \<open>The batch run\<close>

text \<open>
  What the sorter does not control: \<open>changes i\<close> is what other parties do to the folder
  before the step at position \<open>i\<close> reads it, \<open>writer k\<close> is the outcome of the attempt to write
  the workbook after \<open>k\<close> earlier attempts, \<open>count_fails\<close> is the outcome of reading the
  folder's \<open>Items.Count\<close>, and the two flags say whether the archive store and the target
  folder path are found.
\<close>

record provider =
  changes :: "int \<Rightarrow> item list \<Rightarrow> item list"
  writer :: "nat \<Rightarrow> exc option"
  count_fails :: "exc option"
  archive_found :: bool
  target_found :: bool

definition MAIL_ITEM_CLASS :: int where
  "MAIL_ITEM_CLASS = 43"

definition save_smtp_cache :: "provider \<Rightarrow> sorter \<Rightarrow> sorter" where
  "save_smtp_cache p s =
     (let s1 = s\<lparr> cache_saves := cache_saves s @ [processed_count s] \<rparr> in
      case writer p (length (cache_saves s)) of
        None \<Rightarrow> s1\<lparr> items_since_last_save := 0 \<rparr>
      | Some e \<Rightarrow> s1\<lparr> invalid_log := invalid_log s1 @ [CacheSaveError e] \<rparr>)"

text \<open>Lines 276 to 298, one pass of the \<open>while\<close> body at position \<open>i\<close> without the decrement:
  \<open>Items.Item(i)\<close> raises outside the folder's current range. The progress line printed
  every 100 items or 30 seconds changes no field of the sorter and is left out.\<close>

definition visit :: "provider \<Rightarrow> int \<Rightarrow> sorter \<Rightarrow> sorter" where
  "visit p i s0 =
     (let s = s0\<lparr> folder_items := changes p i (folder_items s0), item_reads := item_reads s0 @ [i] \<rparr> in
      if 1 \<le> i \<and> i \<le> int (length (folder_items s)) then
        (let it = folder_items s ! nat (i - 1);
             s1 = s\<lparr> items_seen := items_seen s @ [it] \<rparr> in
         case Class it of
           Inl e \<Rightarrow> s1
         | Inr c \<Rightarrow>
             if c = MAIL_ITEM_CLASS then
               (let r = process_email i it s1; s2 = snd r in
                if fst r then
                  (let s3 = s2\<lparr> processed_count := processed_count s2 + 1,
                                items_since_last_save := items_since_last_save s2 + 1 \<rparr> in
                   if items_since_last_save s3 \<ge> cache_save_interval s3
                   then save_smtp_cache p s3 else s3)
                else s2)
             else s1)
      else s)"

text \<open>The \<open>while i > 0\<close> loop: both the normal path and the handler decrement \<open>i\<close> once.\<close>

function process_items :: "provider \<Rightarrow> int \<Rightarrow> sorter \<Rightarrow> sorter" where
  "process_items p i s = (if i > 0 then process_items p (i - 1) (visit p i s) else s)"
  by pat_completeness auto
termination
  by (relation "measure (\<lambda>(p, i, s). nat i)") auto

declare process_items.simps [simp del]

definition process_folder_items :: "provider \<Rightarrow> sorter \<Rightarrow> sorter" where
  "process_folder_items p s =
     (case count_fails p of
        Some e \<Rightarrow> s\<lparr> invalid_log := invalid_log s @ [FolderProcessingError e] \<rparr>
      | None \<Rightarrow> process_items p (int (length (folder_items s))) s)"

text \<open>\<open>run_archive_processing\<close> from the two lookups on: a missing archive or target folder
  returns before any item is read and before the final save.\<close>

definition run_archive_processing :: "provider \<Rightarrow> sorter \<Rightarrow> sorter" where
  "run_archive_processing p s =
     (if \<not> archive_found p then s
      else if \<not> target_found p then s
      else save_smtp_cache p (process_folder_items p s))"

section \<open>Notions used to state the properties\<close>





text \<open>A small workbook and three rule rows.\<close>

definition ex_xls :: workbook where
  "ex_xls =
     [(''Bulk'', [(''Address'', [Str ''Bob@X.com'', NaN, Str ''alerts@x.com''])]),
      (''Research'', [(''Address'', [Str ''bob@x.com''])]),
      (''Words'', [(''Subject'', [Str ''Invoice'', NaN, Str ''invoice'', Num 42]), (''Other'', [Str ''Promo''])])]"

definition ex_bulk :: sheet_info where
  "ex_bulk = \<lparr>sheet = ''Bulk'', destination_name = ''ToDelete'', column = Some ''Address'',
              columns = None, match_field = None\<rparr>"

definition ex_research :: sheet_info where
  "ex_research = \<lparr>sheet = ''Research'', destination_name = ''Research'', column = Some ''Address'',
              columns = None, match_field = None\<rparr>"

definition ex_words :: sheet_info where
  "ex_words = \<lparr>sheet = ''Words'', destination_name = ''Bills'', column = None,
              columns = Some [''Subject'', ''Other''], match_field = None\<rparr>"


definition ex_entry_failing :: address_entry where
  "ex_entry_failing = \<lparr>AddressEntryUserType = Inr 0, Address = Inr ''/O=EX/CN=BOB'', GetExchangeUser = Inl ComError\<rparr>"



definition ex_entry_smtp :: address_entry where
  "ex_entry_smtp = \<lparr>AddressEntryUserType = Inr 10, Address = Inr ''carol@y.org'', GetExchangeUser = Inr None\<rparr>"

definition ex_item :: "nat \<Rightarrow> address_entry \<Rightarrow> string \<Rightarrow> item" where
  "ex_item n entry subj =
     \<lparr>EntryID = n, Class = Inr 43, Subject = Inr subj, Body = Inr ''Hello'',
      Sender = Inr (Some entry), SenderEmailAddress = Inr (Some ''bob@x.com''),
      Delete = None, Move = None, SubjectAfterAction = Inr subj\<rparr>"

text \<open>A mail item from a plain SMTP sender, and a sorter loaded from the example workbook.\<close>

definition ex_mail :: "nat \<Rightarrow> string \<Rightarrow> string \<Rightarrow> item" where
  "ex_mail n addr subj =
     \<lparr>EntryID = n, Class = Inr 43, Subject = Inr subj, Body = Inr ''Hello'',
      Sender = Inr (Some \<lparr>AddressEntryUserType = Inr 10, Address = Inr addr, GetExchangeUser = Inr None\<rparr>),
      SenderEmailAddress = Inr (Some addr),
      Delete = None, Move = None, SubjectAfterAction = Inr subj\<rparr>"

definition ex_unsent :: "nat \<Rightarrow> string \<Rightarrow> item" where
  "ex_unsent n subj =
     \<lparr>EntryID = n, Class = Inr 43, Subject = Inr subj, Body = Inr ''Hello'',
      Sender = Inr None, SenderEmailAddress = Inr (Some []),
      Delete = None, Move = None, SubjectAfterAction = Inr subj\<rparr>"

definition ex_sorter :: "int \<Rightarrow> item list \<Rightarrow> sorter" where
  "ex_sorter interval folder =
     load_data ex_xls
       [(''BulkEmail'', ex_bulk), (''ResearchEmail'', ex_research), (''SubjectKeyword'', ex_words)]
       None (init interval folder)"

text \<open>
  What a step of the sorter leaves alone: the counters and history fields of the run, and
  the folder up to the removal of the item at the current position. \<open>appends_only\<close>: other
  parties only add items at the end of the folder.
\<close>

definition run_fields_kept :: "sorter \<Rightarrow> sorter \<Rightarrow> bool" where
  "run_fields_kept s s' =
     (item_reads s' = item_reads s \<and> items_seen s' = items_seen s
      \<and> processed_count s' = processed_count s
      \<and> items_since_last_save s' = items_since_last_save s
      \<and> cache_saves s' = cache_saves s
      \<and> cache_save_interval s' = cache_save_interval s)"

definition folder_kept_or_removed :: "int \<Rightarrow> sorter \<Rightarrow> sorter \<Rightarrow> bool" where
  "folder_kept_or_removed i s s' =
     (folder_items s' = folder_items s \<or> folder_items s' = remove_at i (folder_items s))"

definition appends_only :: "provider \<Rightarrow> bool" where
  "appends_only p = (\<forall>i xs. \<exists>ys. changes p i xs = xs @ ys)"

text \<open>
  The values of \<open>processed_count\<close> at which an interval of \<open>n\<close> saves the cache, up to
  a count of \<open>k\<close>, and the invariant that links the two counters and the history of saves.
\<close>

definition expected_saves :: "int \<Rightarrow> int \<Rightarrow> int list" where
  "expected_saves n k = map (\<lambda>j. j * n) [1..k div n]"

definition save_invariant :: "int \<Rightarrow> sorter \<Rightarrow> bool" where
  "save_invariant n s =
     (cache_save_interval s = n \<and> 0 \<le> processed_count s
      \<and> items_since_last_save s = processed_count s mod n
      \<and> cache_saves s = expected_saves n (processed_count s))"

text \<open>Example providers and folders.\<close>

definition ex_quiet :: provider where
  "ex_quiet = \<lparr>changes = (\<lambda>i xs. xs), writer = (\<lambda>k. None), count_fails = None,
               archive_found = True, target_found = True\<rparr>"

definition ex_busy :: provider where
  "ex_busy = \<lparr>changes = (\<lambda>i xs. if i = 2 then xs @ [ex_mail 99 ''alerts@x.com'' ''New''] else xs),
              writer = (\<lambda>k. None), count_fails = None,
              archive_found = True, target_found = True\<rparr>"

definition ex_five :: "item list" where
  "ex_five = [ex_mail 11 ''carol@y.org'' ''Hi'', ex_mail 12 ''dave@y.org'' ''Hi'',
              ex_mail 13 ''alerts@x.com'' ''Hi'', ex_mail 14 ''erin@y.org'' ''Hi'',
              ex_mail 15 ''frank@y.org'' ''Hi'']"

definition ex_three :: "item list" where
  "ex_three = [ex_mail 21 ''carol@y.org'' ''Hi'',
               (ex_mail 22 ''dave@y.org'' ''Hi'')\<lparr>Class := Inl ComError\<rparr>,
               ex_mail 23 ''alerts@x.com'' ''Hi'']"

definition ex_six :: "item list" where
  "ex_six = [ex_mail 31 ''alerts@x.com'' ''One'', ex_mail 32 ''bob@x.com'' ''Two'',
             ex_mail 33 ''carol@y.org'' ''Hi'', ex_mail 34 ''carol@y.org'' ''Invoice 9'',
             ex_mail 35 ''alerts@x.com'' ''Five'', ex_mail 36 ''dave@y.org'' ''Promo week'']"

section \<open>Properties of load_data\<close>




























section \<open>Properties of keyword matching\<close>





section \<open>Properties of get_smtp_address\<close>

text \<open>
  Claim C7, as stated, fails: when resolution fails by raising (here the directory call
  raises), the result is \<open>None\<close> although the plain sender-address field is available.
\<close>

theorem get_smtp_address_no_fallback_on_raise:
  "GetExchangeUser ex_entry_failing = Inl ComError
   \<and> plain_sender (ex_item 1 ex_entry_failing ''Hi'') = Some ''bob@x.com''
   \<and> fst (get_smtp_address (ex_item 1 ex_entry_failing ''Hi'') (init 500 [])) = None"
  by code_simp

text \<open>
  Claim C7, amended. \<open>get_smtp_address\<close> is a total function: it never raises to its caller.
  If the sender is not of the internal-directory type, or it is and on a cache miss the
  directory returns no user, the result is the plain sender-address field (\<open>None\<close> when
  reading that field raises or the field is \<open>None\<close>). If any step of the resolution raises
  (the sender object is missing or unreadable, its type or handle cannot be read, the
  directory call or the read of the primary address raises), the result is \<open>None\<close>.
\<close>

theorem get_smtp_address_fallback:
  "(\<forall>entry t. Sender it = Inr (Some entry) \<and> AddressEntryUserType entry = Inr t \<and> t \<noteq> 0
       \<longrightarrow> get_smtp_address it s = (plain_sender it, s))
   \<and> (\<forall>entry a. Sender it = Inr (Some entry) \<and> AddressEntryUserType entry = Inr 0
         \<and> Address entry = Inr a \<and> dict_get (smtp_cache s) (lower a) = None
         \<and> GetExchangeUser entry = Inr None
       \<longrightarrow> fst (get_smtp_address it s) = plain_sender it)
   \<and> (\<forall>e. SenderEmailAddress it = Inl e \<longrightarrow> plain_sender it = None)
   \<and> (\<forall>v. SenderEmailAddress it = Inr v \<longrightarrow> plain_sender it = v)
   \<and> ((\<exists>e. Sender it = Inl e) \<or> Sender it = Inr None
        \<or> (\<exists>entry. Sender it = Inr (Some entry)
             \<and> ((\<exists>e. AddressEntryUserType entry = Inl e)
                \<or> (AddressEntryUserType entry = Inr 0
                    \<and> ((\<exists>e. Address entry = Inl e)
                       \<or> (\<exists>a. Address entry = Inr a \<and> dict_get (smtp_cache s) (lower a) = None
                             \<and> ((\<exists>e. GetExchangeUser entry = Inl e)
                                \<or> (\<exists>eu e. GetExchangeUser entry = Inr (Some eu)
                                      \<and> PrimarySmtpAddress eu = Inl e)))))))
       \<longrightarrow> fst (get_smtp_address it s) = None)"
  by (auto simp: get_smtp_address_def plain_sender_def Let_def)

theorem get_smtp_address_fallback_witness:
  "Sender (ex_item 2 ex_entry_smtp ''Hi'') = Inr (Some ex_entry_smtp)
   \<and> AddressEntryUserType ex_entry_smtp = Inr 10
   \<and> get_smtp_address (ex_item 2 ex_entry_smtp ''Hi'') (init 500 []) = (Some ''bob@x.com'', init 500 [])
   \<and> Sender (ex_item 1 ex_entry_failing ''Hi'') = Inr (Some ex_entry_failing)
   \<and> GetExchangeUser ex_entry_failing = Inl ComError
   \<and> fst (get_smtp_address (ex_item 1 ex_entry_failing ''Hi'') (init 500 [])) = None"
proof -
  have a: "Sender (ex_item 2 ex_entry_smtp ''Hi'') = Inr (Some ex_entry_smtp)"
    by (simp add: ex_item_def)
  have b: "AddressEntryUserType ex_entry_smtp = Inr 10" by (simp add: ex_entry_smtp_def)
  have c: "plain_sender (ex_item 2 ex_entry_smtp ''Hi'') = Some ''bob@x.com''"
    by (simp add: plain_sender_def ex_item_def)
  have d: "Sender (ex_item 1 ex_entry_failing ''Hi'') = Inr (Some ex_entry_failing)"
    by (simp add: ex_item_def)
  have e: "GetExchangeUser ex_entry_failing = Inl ComError" "AddressEntryUserType ex_entry_failing = Inr 0"
    "Address ex_entry_failing = Inr ''/O=EX/CN=BOB''"
    by (simp_all add: ex_entry_failing_def)
  have f: "dict_get (smtp_cache (init 500 [])) (lower ''/O=EX/CN=BOB'') = None"
    by (simp add: init_def dict_get_def)
  from get_smtp_address_fallback [of "ex_item 2 ex_entry_smtp ''Hi''" "init 500 []"] a b c
  have 1: "get_smtp_address (ex_item 2 ex_entry_smtp ''Hi'') (init 500 []) = (Some ''bob@x.com'', init 500 [])"
    by simp
  from get_smtp_address_fallback [of "ex_item 1 ex_entry_failing ''Hi''" "init 500 []"] d e f
  have 2: "fst (get_smtp_address (ex_item 1 ex_entry_failing ''Hi'') (init 500 [])) = None"
    by blast
  from a b 1 d e(1) 2 show ?thesis by simp
qed





section \<open>Properties of process_email\<close>


lemma get_smtp_address_email_rules:
  "email_rules (snd (get_smtp_address it s)) = email_rules s"
  by (simp add: get_smtp_address_def Let_def split: sum.splits option.splits)





text \<open>
  Claim C3. When the resolved sender is \<open>None\<close> or empty and every rule stored under the
  empty key is \<open>sender_only\<close>, no sender rule fires: \<open>process_email\<close> goes on to the
  keyword rules (or fails on an unreadable subject or body). When the resolved sender is not
  empty and its lowercase is a key of the sender-rule map, the \<open>sender_only\<close> rule fires:
  \<open>process_email\<close> is the \<open>EmailMatch\<close> action with the rule's destination and the
  lowercased sender as trigger, for every readable subject and body.
\<close>

theorem sender_only_rule:
  "((fst (get_smtp_address it s) = None \<or> fst (get_smtp_address it s) = Some [])
      \<and> (\<forall>rule. dict_get (email_rules s) [] = Some rule \<longrightarrow> sender_only rule)
     \<longrightarrow> process_email i it s =
          (case Subject it of
             Inl e \<Rightarrow> (False, s\<lparr>invalid_log := invalid_log s @ [ItemProcessError e]\<rparr>)
           | Inr subj \<Rightarrow>
               (case Body it of
                  Inl e \<Rightarrow> (False, s\<lparr>invalid_log := invalid_log s @ [ItemProcessError e]\<rparr>)
                | Inr bod \<Rightarrow>
                    check_keyword_rules i it (keyword_rules (snd (get_smtp_address it s)))
                      (lower subj) (lower bod) (snd (get_smtp_address it s)))))
   \<and> (fst (get_smtp_address it s) = Some a \<and> a \<noteq> []
        \<and> dict_get (email_rules s) (lower a) = Some rule \<and> sender_only rule
        \<and> Subject it = Inr subj \<and> Body it = Inr bod
     \<longrightarrow> process_email i it s =
          execute_action i it (e_dest rule) (lower a) ''EmailMatch'' (snd (get_smtp_address it s)))"
proof (intro conjI impI)
  assume h: "(fst (get_smtp_address it s) = None \<or> fst (get_smtp_address it s) = Some [])
      \<and> (\<forall>rule. dict_get (email_rules s) [] = Some rule \<longrightarrow> sender_only rule)"
  then have e: "lower (case fst (get_smtp_address it s) of None \<Rightarrow> [] | Some a \<Rightarrow> a) = []"
    by (auto simp: lower_def)
  have r: "\<And>rule. dict_get (email_rules (snd (get_smtp_address it s))) [] = Some rule \<Longrightarrow> sender_only rule"
    using h by (simp add: get_smtp_address_email_rules)
  show "process_email i it s =
          (case Subject it of
             Inl e \<Rightarrow> (False, s\<lparr>invalid_log := invalid_log s @ [ItemProcessError e]\<rparr>)
           | Inr subj \<Rightarrow>
               (case Body it of
                  Inl e \<Rightarrow> (False, s\<lparr>invalid_log := invalid_log s @ [ItemProcessError e]\<rparr>)
                | Inr bod \<Rightarrow>
                    check_keyword_rules i it (keyword_rules (snd (get_smtp_address it s)))
                      (lower subj) (lower bod) (snd (get_smtp_address it s))))"
  proof (cases "Subject it")
    case (Inl x)
    then show ?thesis by (simp add: process_email_def)
  next
    case subj: (Inr x)
    show ?thesis
    proof (cases "Body it")
      case (Inl y)
      with subj show ?thesis by (simp add: process_email_def)
    next
      case bod: (Inr y)
      show ?thesis
        unfolding process_email_def Let_def e
        using subj bod r by (auto split: option.splits)
    qed
  qed
next
  assume h: "fst (get_smtp_address it s) = Some a \<and> a \<noteq> []
        \<and> dict_get (email_rules s) (lower a) = Some rule \<and> sender_only rule
        \<and> Subject it = Inr subj \<and> Body it = Inr bod"
  then have "lower a \<noteq> []" by (simp add: lower_def)
  with h show "process_email i it s =
          execute_action i it (e_dest rule) (lower a) ''EmailMatch'' (snd (get_smtp_address it s))"
    by (simp add: process_email_def Let_def get_smtp_address_email_rules)
qed


theorem sender_only_rule_witness:
  "fst (get_smtp_address (ex_unsent 8 ''Hi'')
          ((ex_sorter 2 [])\<lparr>email_rules := [([], \<lparr>e_dest = ''ToDelete'', sender_only = True\<rparr>)]\<rparr>)) = None
   \<and> process_email 2 (ex_unsent 8 ''Hi'')
          ((ex_sorter 2 [])\<lparr>email_rules := [([], \<lparr>e_dest = ''ToDelete'', sender_only = True\<rparr>)]\<rparr>)
       = (False, (ex_sorter 2 [])\<lparr>email_rules := [([], \<lparr>e_dest = ''ToDelete'', sender_only = True\<rparr>)]\<rparr>)
   \<and> dict_get (email_rules (ex_sorter 2 [])) (lower ''Bob@X.com'') = Some \<lparr>e_dest = ''Research'', sender_only = True\<rparr>
   \<and> process_email 2 (ex_mail 9 ''Bob@X.com'' ''Hi'') (ex_sorter 2 [])
       = (True, (ex_sorter 2 [])\<lparr>bulk_log := [MOVED ''Research'' ''bob@x.com'' ''EmailMatch'' ''Hi'']\<rparr>)"
proof -
  let ?s = "ex_sorter 2 []"
  let ?t = "?s\<lparr>email_rules := [([], \<lparr>e_dest = ''ToDelete'', sender_only = True\<rparr>)]\<rparr>"
  let ?u = "ex_unsent 8 ''Hi''"
  let ?m = "ex_mail 9 ''Bob@X.com'' ''Hi''"
  have gu: "get_smtp_address ?u ?t = (None, ?t)"
    by (simp add: get_smtp_address_def ex_unsent_def)
  have ru: "\<forall>rule. dict_get (email_rules ?t) [] = Some rule \<longrightarrow> sender_only rule"
    by (simp add: dict_get_def)
  have fu: "Subject ?u = Inr ''Hi''" "Body ?u = Inr ''Hello''"
    by (simp_all add: ex_unsent_def)
  have k: "keyword_rules ?s = [(''invoice'', \<lparr>k_dest = ''Bills'', field = ''subject_only''\<rparr>),
        (''42'', \<lparr>k_dest = ''Bills'', field = ''subject_only''\<rparr>),
        (''promo'', \<lparr>k_dest = ''Bills'', field = ''subject_only''\<rparr>)]"
    by code_simp
  have n: "\<not> keyword_matches \<lparr>k_dest = ''Bills'', field = ''subject_only''\<rparr> ''invoice'' (lower ''Hi'') (lower ''Hello'')"
    "\<not> keyword_matches \<lparr>k_dest = ''Bills'', field = ''subject_only''\<rparr> ''42'' (lower ''Hi'') (lower ''Hello'')"
    "\<not> keyword_matches \<lparr>k_dest = ''Bills'', field = ''subject_only''\<rparr> ''promo'' (lower ''Hi'') (lower ''Hello'')"
    by code_simp+
  have ck: "check_keyword_rules 2 ?u (keyword_rules ?t) (lower ''Hi'') (lower ''Hello'') ?t = (False, ?t)"
    by (simp add: k n)
  have gm: "get_smtp_address ?m ?s = (Some ''Bob@X.com'', ?s)"
    by (simp add: get_smtp_address_def ex_mail_def plain_sender_def)
  have fm: "Subject ?m = Inr ''Hi''" "Body ?m = Inr ''Hello''"
    by (simp_all add: ex_mail_def)
  have l: "lower ''Bob@X.com'' = ''bob@x.com''" by code_simp
  have rm: "dict_get (email_rules ?s) (lower ''Bob@X.com'') = Some \<lparr>e_dest = ''Research'', sender_only = True\<rparr>"
    by code_simp
  have f: "folder_items ?s = []" "bulk_log ?s = []" by code_simp+
  have e: "execute_action 2 ?m ''Research'' ''bob@x.com'' ''EmailMatch'' ?s
      = (True, ?s\<lparr>bulk_log := [MOVED ''Research'' ''bob@x.com'' ''EmailMatch'' ''Hi'']\<rparr>)"
    by (simp add: execute_action_def ex_mail_def Let_def remove_at_def f)
  from sender_only_rule [where it = ?u and s = ?t and i = 2] gu ru fu ck
  have 1: "process_email 2 ?u ?t = (False, ?t)" by simp
  from sender_only_rule [where it = ?m and s = ?s and i = 2 and a = "''Bob@X.com''"
      and rule = "\<lparr>e_dest = ''Research'', sender_only = True\<rparr>" and subj = "''Hi''" and bod = "''Hello''"]
    gm rm fm e l
  have 2: "process_email 2 ?m ?s = (True, ?s\<lparr>bulk_log := [MOVED ''Research'' ''bob@x.com'' ''EmailMatch'' ''Hi'']\<rparr>)"
    by simp
  from gu rm 1 2 show ?thesis by simp
qed

section \<open>Properties of the batch loop\<close>

lemma get_smtp_address_frame:
  "run_fields_kept s (snd (get_smtp_address it s))
   \<and> folder_items (snd (get_smtp_address it s)) = folder_items s"
  by (simp add: get_smtp_address_def run_fields_kept_def Let_def split: sum.splits option.splits)

lemma execute_action_frame:
  "run_fields_kept s (snd (execute_action i it d t m s))
   \<and> folder_kept_or_removed i s (snd (execute_action i it d t m s))"
  by (simp add: execute_action_def run_fields_kept_def folder_kept_or_removed_def Let_def
      split: sum.splits option.splits)

lemma check_keyword_rules_frame:
  "run_fields_kept s (snd (check_keyword_rules i it kr subject body s))
   \<and> folder_kept_or_removed i s (snd (check_keyword_rules i it kr subject body s))"
proof (induction kr)
  case Nil
  show ?case by (simp add: run_fields_kept_def folder_kept_or_removed_def)
next
  case (Cons r kr)
  then show ?case by (cases r) (simp add: execute_action_frame)
qed

lemma run_fields_kept_trans:
  "run_fields_kept s s1 \<Longrightarrow> run_fields_kept s1 s2 \<Longrightarrow> run_fields_kept s s2"
  by (simp add: run_fields_kept_def)

lemma process_email_frame:
  "run_fields_kept s (snd (process_email i it s))
   \<and> folder_kept_or_removed i s (snd (process_email i it s))"
proof -
  let ?s1 = "snd (get_smtp_address it s)"
  have g: "run_fields_kept s ?s1" and f: "folder_items ?s1 = folder_items s"
    using get_smtp_address_frame [of s it] by simp_all
  have k: "\<And>s2. run_fields_kept ?s1 s2 \<and> folder_kept_or_removed i ?s1 s2
      \<Longrightarrow> run_fields_kept s s2 \<and> folder_kept_or_removed i s s2"
    using g f by (simp add: run_fields_kept_def folder_kept_or_removed_def)
  show ?thesis
  proof (cases "Subject it")
    case (Inl e)
    then show ?thesis
      by (simp add: process_email_def run_fields_kept_def folder_kept_or_removed_def)
  next
    case subj: (Inr x)
    show ?thesis
    proof (cases "Body it")
      case (Inl e)
      with subj show ?thesis
        by (simp add: process_email_def run_fields_kept_def folder_kept_or_removed_def)
    next
      case bod: (Inr y)
      show ?thesis
        unfolding process_email_def Let_def
        using subj bod
        by (auto split: option.splits intro!: k execute_action_frame check_keyword_rules_frame)
    qed
  qed
qed

lemma save_smtp_cache_frame:
  "item_reads (save_smtp_cache p s) = item_reads s
   \<and> items_seen (save_smtp_cache p s) = items_seen s
   \<and> folder_items (save_smtp_cache p s) = folder_items s
   \<and> processed_count (save_smtp_cache p s) = processed_count s
   \<and> cache_save_interval (save_smtp_cache p s) = cache_save_interval s"
  by (simp add: save_smtp_cache_def Let_def split: option.splits)

lemma visit_reads: "item_reads (visit p i s) = item_reads s @ [i]"
proof -
  have "\<And>it s1. item_reads (snd (process_email i it s1)) = item_reads s1"
    using process_email_frame by (simp add: run_fields_kept_def)
  then show ?thesis
    by (simp add: visit_def Let_def save_smtp_cache_frame split: sum.splits)
qed

lemma visit_seen:
  assumes "appends_only p" and "1 \<le> i" and "nat i \<le> length (folder_items s)"
  shows "items_seen (visit p i s) = items_seen s @ [folder_items s ! nat (i - 1)]
       \<and> take (nat (i - 1)) (folder_items (visit p i s)) = take (nat (i - 1)) (folder_items s)
       \<and> nat (i - 1) \<le> length (folder_items (visit p i s))"
proof -
  from assms(1) obtain ys where c: "changes p i (folder_items s) = folder_items s @ ys"
    by (auto simp: appends_only_def)
  let ?f = "folder_items s @ ys"
  let ?s = "s\<lparr>folder_items := ?f, item_reads := item_reads s @ [i]\<rparr>"
  let ?it = "?f ! nat (i - 1)"
  let ?s1 = "?s\<lparr>items_seen := items_seen ?s @ [?it]\<rparr>"
  have lt: "nat (i - 1) < length (folder_items s)" using assms(2,3) by linarith
  have rng: "1 \<le> i \<and> i \<le> int (length ?f)" using assms(2,3) by simp
  have it: "?it = folder_items s ! nat (i - 1)" using lt by (simp add: nth_append)
  have tk: "take (nat (i - 1)) ?f = take (nat (i - 1)) (folder_items s)" using lt by simp
  have rm: "take (nat (i - 1)) (remove_at i ?f) = take (nat (i - 1)) (folder_items s)"
    using lt by (simp add: remove_at_def)
  have lrm: "nat (i - 1) \<le> length (remove_at i ?f)" using lt by (simp add: remove_at_def)
  have good: "\<And>s2. run_fields_kept ?s1 s2 \<Longrightarrow> folder_kept_or_removed i ?s1 s2 \<Longrightarrow>
      items_seen s2 = items_seen s @ [folder_items s ! nat (i - 1)]
       \<and> take (nat (i - 1)) (folder_items s2) = take (nat (i - 1)) (folder_items s)
       \<and> nat (i - 1) \<le> length (folder_items s2)"
    using it tk rm lrm lt
    by (auto simp: run_fields_kept_def folder_kept_or_removed_def)
  have pe: "items_seen (snd (process_email i ?it ?s1)) = items_seen s @ [folder_items s ! nat (i - 1)]
       \<and> take (nat (i - 1)) (folder_items (snd (process_email i ?it ?s1))) = take (nat (i - 1)) (folder_items s)
       \<and> nat (i - 1) \<le> length (folder_items (snd (process_email i ?it ?s1)))"
    using good process_email_frame [of ?s1 i ?it] by blast
  have s1: "items_seen ?s1 = items_seen s @ [folder_items s ! nat (i - 1)]
       \<and> take (nat (i - 1)) (folder_items ?s1) = take (nat (i - 1)) (folder_items s)
       \<and> nat (i - 1) \<le> length (folder_items ?s1)"
    using it tk lt by simp
  have v: "visit p i s =
     (case Class ?it of
           Inl e \<Rightarrow> ?s1
         | Inr c \<Rightarrow>
             if c = MAIL_ITEM_CLASS then
               (let r = process_email i ?it ?s1; s2 = snd r in
                if fst r then
                  (let s3 = s2\<lparr> processed_count := processed_count s2 + 1,
                                items_since_last_save := items_since_last_save s2 + 1 \<rparr> in
                   if items_since_last_save s3 \<ge> cache_save_interval s3
                   then save_smtp_cache p s3 else s3)
                else s2)
             else ?s1)"
    using rng by (auto simp: visit_def c Let_def split: sum.splits)
  show ?thesis
    unfolding v using pe s1
    by (auto simp: Let_def save_smtp_cache_frame split: sum.splits)
qed

lemma process_items_reads: "item_reads (process_items p i s) = item_reads s @ rev [1..i]"
proof (induction p i s rule: process_items.induct)
  case (1 p i s)
  show ?case
  proof (cases "i > 0")
    case True
    then have u: "[1..i] = [1..i - 1] @ [i]" by (simp add: upto_rec2)
    from True have "process_items p i s = process_items p (i - 1) (visit p i s)"
      by (simp add: process_items.simps)
    with 1 [OF True] show ?thesis by (simp add: visit_reads u)
  next
    case False
    then show ?thesis by (simp add: process_items.simps)
  qed
qed

lemma process_items_seen:
  "appends_only p \<Longrightarrow> nat i \<le> length (folder_items s) \<Longrightarrow>
   items_seen (process_items p i s) = items_seen s @ rev (take (nat i) (folder_items s))"
proof (induction p i s rule: process_items.induct)
  case (1 p i s)
  show ?case
  proof (cases "i > 0")
    case True
    then have i1: "1 \<le> i" by simp
    note v = visit_seen [OF "1.prems"(1) i1 "1.prems"(2)]
    have lt: "nat (i - 1) < length (folder_items s)" using True "1.prems"(2) by linarith
    have n: "nat i = Suc (nat (i - 1))" using True by simp
    have tk: "take (nat i) (folder_items s) = take (nat (i - 1)) (folder_items s) @ [folder_items s ! nat (i - 1)]"
      unfolding n using lt by (simp add: take_Suc_conv_app_nth)
    from True have "process_items p i s = process_items p (i - 1) (visit p i s)"
      by (simp add: process_items.simps)
    moreover have "items_seen (process_items p (i - 1) (visit p i s)) =
        items_seen (visit p i s) @ rev (take (nat (i - 1)) (folder_items (visit p i s)))"
      using "1.IH" [OF True "1.prems"(1)] v by simp
    ultimately show ?thesis using v tk by simp
  next
    case False
    then show ?thesis by (simp add: process_items.simps)
  qed
qed

text \<open>
  Claim C10. \<open>process_folder_items\<close> is a total function (the loop terminates). It reads the
  count once, before the loop, and then passes to \<open>Items.Item\<close> exactly the positions from that
  count down to 1, one per iteration, whatever other parties do to the folder meanwhile and
  whether or not an iteration raises; when reading the count raises there is no iteration.
  If other parties only append items, the items returned are exactly the items present at
  the start, last first: an appended item is never visited.
\<close>

theorem process_folder_items_reads:
  "item_reads (process_folder_items p s) =
     item_reads s @ (case count_fails p of
                       None \<Rightarrow> rev [1..int (length (folder_items s))]
                     | Some e \<Rightarrow> [])
   \<and> (count_fails p = None \<and> appends_only p \<longrightarrow>
        items_seen (process_folder_items p s) = items_seen s @ rev (folder_items s))"
  by (simp add: process_folder_items_def process_items_reads process_items_seen
      split: option.splits)

theorem process_folder_items_reads_witness:
  "appends_only ex_busy
   \<and> item_reads (process_folder_items ex_busy (ex_sorter 500 ex_three)) = [3, 2, 1]
   \<and> map EntryID (items_seen (process_folder_items ex_busy (ex_sorter 500 ex_three))) = [23, 22, 21]
   \<and> map EntryID (folder_items (process_folder_items ex_busy (ex_sorter 500 ex_three))) = [21, 22, 99]"
proof -
  let ?s = "ex_sorter 500 ex_three"
  have a: "appends_only ex_busy" by (simp add: appends_only_def ex_busy_def)
  have c: "count_fails ex_busy = None" by (simp add: ex_busy_def)
  have f: "folder_items ?s = ex_three" by code_simp
  have r: "item_reads ?s = []" "items_seen ?s = []" by code_simp+
  have u: "rev [1..3::int] = [3, 2, 1]" by (simp add: upto.simps)
  have d: "map EntryID (folder_items (process_folder_items ex_busy ?s)) = [21, 22, 99]"
    by code_simp
  from process_folder_items_reads [of ex_busy ?s] a c f r u d show ?thesis
    by (simp add: ex_three_def ex_mail_def)
qed

text \<open>
  Claim C4. For a folder holding five items and no outside change, the positions read are
  5, 4, 3, 2, 1 and the items returned are the five original items, last first, each once,
  whichever of them the processing deletes or moves; in particular, after position 3 is
  deleted the next position read is 2 and position 3 is not read again.
\<close>

theorem descending_iteration_five:
  assumes "folder_items s = [a, b, c, d, e]" and "count_fails p = None"
    and "changes p = (\<lambda>i xs. xs)"
  shows "item_reads (process_folder_items p s) = item_reads s @ [5, 4, 3, 2, 1]
       \<and> items_seen (process_folder_items p s) = items_seen s @ [e, d, c, b, a]"
proof -
  have a: "appends_only p" using assms(3) by (simp add: appends_only_def)
  have u: "rev [1..5::int] = [5, 4, 3, 2, 1]" by (simp add: upto.simps)
  have "process_folder_items p s = process_items p 5 s"
    using assms(1,2) by (simp add: process_folder_items_def)
  then show ?thesis
    using process_items_reads [of p 5 s] process_items_seen [OF a, of 5 s] assms(1) u
    by simp
qed

theorem descending_iteration_five_witness:
  "map EntryID (folder_items (process_folder_items ex_quiet (ex_sorter 500 ex_five))) = [11, 12, 14, 15]
   \<and> item_reads (process_folder_items ex_quiet (ex_sorter 500 ex_five)) = [5, 4, 3, 2, 1]
   \<and> map EntryID (items_seen (process_folder_items ex_quiet (ex_sorter 500 ex_five))) = [15, 14, 13, 12, 11]"
proof -
  let ?s = "ex_sorter 500 ex_five"
  have f: "folder_items ?s = [ex_mail 11 ''carol@y.org'' ''Hi'', ex_mail 12 ''dave@y.org'' ''Hi'',
              ex_mail 13 ''alerts@x.com'' ''Hi'', ex_mail 14 ''erin@y.org'' ''Hi'',
              ex_mail 15 ''frank@y.org'' ''Hi'']"
    by code_simp
  have c: "count_fails ex_quiet = None" "changes ex_quiet = (\<lambda>i xs. xs)"
    by (simp_all add: ex_quiet_def)
  have r: "item_reads ?s = []" "items_seen ?s = []" by code_simp+
  have d: "map EntryID (folder_items (process_folder_items ex_quiet ?s)) = [11, 12, 14, 15]"
    by code_simp
  from descending_iteration_five [OF f c] r d show ?thesis
    by (simp add: ex_mail_def)
qed

lemma count_reaches_interval:
  fixes n k :: int
  assumes "0 < n" and "0 \<le> k" and "n \<le> k mod n + 1"
  shows "(k + 1) mod n = 0 \<and> (k + 1) div n = k div n + 1 \<and> (k div n + 1) * n = k + 1"
proof -
  have "k mod n < n" using assms(1) by simp
  with assms(3) have m: "k mod n + 1 = n" by simp
  have "k + 1 = n * (k div n) + (k mod n + 1)" by simp
  then have "k + 1 = n * (k div n) + n" unfolding m .
  then have e: "k + 1 = (k div n + 1) * n" by (simp add: algebra_simps)
  have "(k + 1) mod n = 0" by (subst e) simp
  moreover have "(k + 1) div n = k div n + 1" using assms(1) by (subst e) simp
  ultimately show ?thesis using e by simp
qed

lemma count_below_interval:
  fixes n k :: int
  assumes "0 < n" and "0 \<le> k" and "k mod n + 1 < n"
  shows "(k + 1) mod n = k mod n + 1 \<and> (k + 1) div n = k div n"
proof -
  have e: "k + 1 = n * (k div n) + (k mod n + 1)" by simp
  have "0 \<le> k mod n + 1" using assms(1) by simp
  then show ?thesis
    using int_mod_pos_eq [OF e _ assms(3)] int_div_pos_eq [OF e _ assms(3)] by simp
qed

lemma expected_saves_step:
  assumes "0 < n" and "0 \<le> k" and "n \<le> k mod n + 1"
  shows "expected_saves n (k + 1) = expected_saves n k @ [k + 1]"
proof -
  note c = count_reaches_interval [OF assms]
  have "0 \<le> k div n" using assms(1,2) by (simp add: pos_imp_zdiv_nonneg_iff)
  then have "[1..k div n + 1] = [1..k div n] @ [k div n + 1]"
    by (simp add: upto_rec2)
  then show ?thesis using c by (simp add: expected_saves_def)
qed

lemma visit_save_invariant:
  assumes "0 < n" and "\<forall>k. writer p k = None" and "save_invariant n s"
  shows "save_invariant n (visit p i s)"
proof -
  have step: "\<And>t. save_invariant n t \<Longrightarrow>
      save_invariant n
        (let s3 = t\<lparr>processed_count := processed_count t + 1,
                     items_since_last_save := items_since_last_save t + 1\<rparr>
         in if cache_save_interval s3 \<le> items_since_last_save s3
            then save_smtp_cache p s3 else s3)"
  proof -
    fix t assume t: "save_invariant n t"
    let ?k = "processed_count t"
    show "save_invariant n
        (let s3 = t\<lparr>processed_count := processed_count t + 1,
                     items_since_last_save := items_since_last_save t + 1\<rparr>
         in if cache_save_interval s3 \<le> items_since_last_save s3
            then save_smtp_cache p s3 else s3)"
    proof (cases "n \<le> ?k mod n + 1")
      case True
      from t have k: "0 \<le> ?k" by (simp add: save_invariant_def)
      note c = count_reaches_interval [OF assms(1) k True]
      note e = expected_saves_step [OF assms(1) k True]
      from t True c e assms(2) show ?thesis
        by (simp add: save_invariant_def Let_def save_smtp_cache_def)
    next
      case False
      from t have k: "0 \<le> ?k" by (simp add: save_invariant_def)
      from False have lt: "?k mod n + 1 < n" by simp
      note c = count_below_interval [OF assms(1) k lt]
      from t False c show ?thesis
        by (simp add: save_invariant_def Let_def expected_saves_def)
    qed
  qed
  have kept: "\<And>t t'. save_invariant n t \<Longrightarrow> run_fields_kept t t' \<Longrightarrow> save_invariant n t'"
    by (simp add: save_invariant_def run_fields_kept_def)
  have pe: "\<And>it t. save_invariant n t \<Longrightarrow> save_invariant n (snd (process_email i it t))"
    using kept process_email_frame by blast
  let ?s = "s\<lparr>folder_items := changes p i (folder_items s), item_reads := item_reads s @ [i]\<rparr>"
  let ?it = "folder_items ?s ! nat (i - 1)"
  let ?s1 = "?s\<lparr>items_seen := items_seen ?s @ [?it]\<rparr>"
  have i0: "save_invariant n ?s" and i1: "save_invariant n ?s1"
    using assms(3) by (simp_all add: save_invariant_def)
  show ?thesis
  proof (cases "1 \<le> i \<and> i \<le> int (length (changes p i (folder_items s)))")
    case False
    have "visit p i s = ?s"
    proof (cases "1 \<le> i")
      case True
      with False have "\<not> i \<le> int (length (changes p i (folder_items s)))" by simp
      then show ?thesis by (simp add: visit_def Let_def)
    next
      case False
      then show ?thesis by (simp add: visit_def Let_def)
    qed
    with i0 show ?thesis by simp
  next
    case True
    then have rng: "1 \<le> i" "i \<le> int (length (changes p i (folder_items s)))" by simp_all
    show ?thesis
    proof (cases "Class ?it")
      case (Inl e)
      with rng have "visit p i s = ?s1" by (simp add: visit_def Let_def)
      with i1 show ?thesis by simp
    next
      case (Inr c)
      show ?thesis
      proof (cases "c = MAIL_ITEM_CLASS")
        case False
        with rng Inr have "visit p i s = ?s1" by (simp add: visit_def Let_def)
        with i1 show ?thesis by simp
      next
        case mail: True
        let ?r = "process_email i ?it ?s1"
        have i2: "save_invariant n (snd ?r)" using pe [OF i1] .
        show ?thesis
        proof (cases "fst ?r")
          case False
          with rng Inr mail have "visit p i s = snd ?r" by (simp add: visit_def Let_def)
          with i2 show ?thesis by simp
        next
          case True
          with rng Inr mail have "visit p i s =
              (let s3 = (snd ?r)\<lparr>processed_count := processed_count (snd ?r) + 1,
                     items_since_last_save := items_since_last_save (snd ?r) + 1\<rparr>
               in if cache_save_interval s3 \<le> items_since_last_save s3
                  then save_smtp_cache p s3 else s3)"
            by (simp add: visit_def Let_def)
          with step [OF i2] show ?thesis by simp
        qed
      qed
    qed
  qed
qed

lemma process_items_save_invariant:
  "0 < n \<Longrightarrow> \<forall>k. writer p k = None \<Longrightarrow> save_invariant n s \<Longrightarrow>
   save_invariant n (process_items p i s)"
proof (induction p i s rule: process_items.induct)
  case (1 p i s)
  show ?case
  proof (cases "i > 0")
    case True
    have "save_invariant n (visit p i s)"
      using visit_save_invariant [OF "1.prems"] .
    with "1.IH" [OF True "1.prems"(1,2)] True show ?thesis
      by (simp add: process_items.simps)
  next
    case False
    with "1.prems" show ?thesis by (simp add: process_items.simps)
  qed
qed

lemma run_saves:
  assumes "0 < n" and "\<forall>k. writer p k = None" and "save_invariant n s"
    and "archive_found p" and "target_found p"
  shows "cache_saves (run_archive_processing p s) =
           expected_saves n (processed_count (run_archive_processing p s))
             @ [processed_count (run_archive_processing p s)]"
proof -
  have "save_invariant n (process_folder_items p s)"
  proof (cases "count_fails p")
    case None
    then show ?thesis
      using process_items_save_invariant [OF assms(1-3)] by (simp add: process_folder_items_def)
  next
    case (Some e)
    then show ?thesis
      using assms(3) by (simp add: process_folder_items_def save_invariant_def)
  qed
  then show ?thesis
    using assms(2,4,5)
    by (simp add: run_archive_processing_def save_smtp_cache_def Let_def save_invariant_def)
qed

text \<open>
  Claim C6. With a save interval of 2, counters starting at zero and every write of the
  workbook succeeding, a run that matches and actions exactly five items calls
  \<open>save_smtp_cache\<close> exactly three times: when the count reaches 2, when it reaches 4, and
  once more at the end of the run, at count 5.
\<close>

theorem five_matches_three_saves:
  assumes "cache_save_interval s = 2" and "processed_count s = 0"
    and "items_since_last_save s = 0" and "cache_saves s = []"
    and "\<forall>k. writer p k = None" and "archive_found p" and "target_found p"
    and "processed_count (run_archive_processing p s) = 5"
  shows "cache_saves (run_archive_processing p s) = [2, 4, 5]"
proof -
  have i: "save_invariant 2 s"
    using assms(1-4) by (simp add: save_invariant_def expected_saves_def)
  have e: "expected_saves 2 5 = [2, 4]"
    by (simp add: expected_saves_def upto.simps)
  from run_saves [OF _ assms(5) i assms(6,7)] assms(8) e show ?thesis by simp
qed

theorem five_matches_three_saves_witness:
  "processed_count (run_archive_processing ex_quiet (ex_sorter 2 ex_six)) = 5
   \<and> cache_saves (run_archive_processing ex_quiet (ex_sorter 2 ex_six)) = [2, 4, 5]
   \<and> length (cache_saves (run_archive_processing ex_quiet (ex_sorter 2 ex_six))) = 3"
proof -
  let ?s = "ex_sorter 2 ex_six"
  have i: "cache_save_interval ?s = 2" "processed_count ?s = 0" "items_since_last_save ?s = 0"
    "cache_saves ?s = []"
    by code_simp+
  have p: "\<forall>k. writer ex_quiet k = None" "archive_found ex_quiet" "target_found ex_quiet"
    by (simp_all add: ex_quiet_def)
  have n: "processed_count (run_archive_processing ex_quiet ?s) = 5" by code_simp
  from five_matches_three_saves [OF i p n] n show ?thesis by simp
qed

end
